theory Spec2Isabelle
  imports Complex_Main
begin

section \<open>Values of the Python program\<close>

text \<open>
  A Python \<open>str\<close> is a sequence of Unicode code points, so it is modelled as a list of
  natural numbers; \<open>str_lit\<close> reads an ASCII literal of the source.
\<close>

type_synonym pystr = "nat list"

definition str_lit :: "string \<Rightarrow> pystr" where
  "str_lit s = map of_char s"

text \<open>
  \<open>str.isspace\<close> of one code point, as the Python built-in decides it: the ASCII controls
  9 to 13 and 28 to 31, the space, and the Unicode separators.
\<close>

definition py_isspace :: "nat \<Rightarrow> bool" where
  "py_isspace c \<longleftrightarrow>
     (9 \<le> c \<and> c \<le> 13) \<or> (28 \<le> c \<and> c \<le> 32) \<or> c = 133 \<or> c = 160 \<or> c = 5760 \<or>
     (8192 \<le> c \<and> c \<le> 8202) \<or> c = 8232 \<or> c = 8233 \<or> c = 8239 \<or> c = 8287 \<or> c = 12288"

text \<open>\<open>s.strip()\<close>: whitespace is dropped from the left end and from the right end.\<close>

definition py_strip :: "pystr \<Rightarrow> pystr" where
  "py_strip s = rev (dropWhile py_isspace (rev (dropWhile py_isspace s)))"

text \<open>
  The values a decoded inference response is made of. Only a dictionary has \<open>get\<close> and
  only a string has \<open>strip\<close>; the attribute lookup on any other value raises
  \<open>AttributeError\<close>.
\<close>

datatype pyval =
    PNone
  | PBool bool
  | PInt int
  | PFloat real
  | PStr pystr
  | PList "pyval list"
  | PDict "(pystr \<times> pyval) list"

text \<open>
  Exceptions by the class that decides which handler takes them: \<open>except Exception\<close>
  takes every instance of \<open>Exception\<close> (given with the name of its class and its text,
  \<open>str(e)\<close>), and neither \<open>KeyboardInterrupt\<close> nor the other direct subclasses of
  \<open>BaseException\<close>.
\<close>

datatype py_exc =
    KeyboardInterrupt
  | OtherBaseException string
  | Exception string pystr

fun is_Exception :: "py_exc \<Rightarrow> bool" where
  "is_Exception (Exception _ _) = True"
| "is_Exception _ = False"

fun exc_text :: "py_exc \<Rightarrow> pystr" where
  "exc_text (Exception _ text) = text"
| "exc_text _ = []"

text \<open>
  The \<open>AttributeError\<close> of a lookup of \<open>attr\<close> on a value without it; its text names the
  type of the value, as in \<open>'list' object has no attribute 'get'\<close>.
\<close>

fun type_name :: "pyval \<Rightarrow> string" where
  "type_name PNone = ''NoneType''"
| "type_name (PBool _) = ''bool''"
| "type_name (PInt _) = ''int''"
| "type_name (PFloat _) = ''float''"
| "type_name (PStr _) = ''str''"
| "type_name (PList _) = ''list''"
| "type_name (PDict _) = ''dict''"

definition attribute_error :: "pyval \<Rightarrow> string \<Rightarrow> py_exc" where
  "attribute_error v attr =
     Exception ''AttributeError''
       (str_lit ([CHR 0x27] @ type_name v @ [CHR 0x27] @ '' object has no attribute '' @
                 [CHR 0x27] @ attr @ [CHR 0x27]))"

definition py_get :: "pyval \<Rightarrow> pystr \<Rightarrow> pyval \<Rightarrow> py_exc + pyval" where
  "py_get d k dflt =
     (case d of
        PDict kvs \<Rightarrow> (case map_of kvs k of Some v \<Rightarrow> Inr v | None \<Rightarrow> Inr dflt)
      | _ \<Rightarrow> Inl (attribute_error d ''get''))"

definition py_strip_method :: "pyval \<Rightarrow> py_exc + pystr" where
  "py_strip_method v =
     (case v of
        PStr s \<Rightarrow> Inr (py_strip s)
      | _ \<Rightarrow> Inl (attribute_error v ''strip''))"

text \<open>\<open>str(i)\<close> of an integer: its decimal digits, after a minus sign when it is negative.\<close>

fun nat_digits :: "nat \<Rightarrow> nat list" where
  "nat_digits n = (if n < 10 then [n] else nat_digits (n div 10) @ [n mod 10])"

declare nat_digits.simps [simp del]

definition py_str_int :: "int \<Rightarrow> pystr" where
  "py_str_int i =
     (if i < 0 then 45 # map (\<lambda>d. 48 + d) (nat_digits (nat (- i)))
      else map (\<lambda>d. 48 + d) (nat_digits (nat i)))"

section \<open>The log store\<close>

record log_entry =
  frame_number :: int
  timestamp :: pystr
  description :: pystr

text \<open>
  Lines 87 to 89 of \<open>surveillance_loop\<close> are two statements on the module-level list
  \<open>analysis_logs\<close>: \<open>analysis_logs.append(log_entry)\<close>, then
  \<open>if len(analysis_logs) > 100: analysis_logs.pop(0)\<close>. \<open>log_push\<close> is the list after
  the first, \<open>log_trim\<close> the second, \<open>append_log\<close> both in sequence. The guard makes
  \<open>pop(0)\<close> run on a list of more than 100 entries only, so it never raises.
\<close>

definition log_push :: "log_entry list \<Rightarrow> log_entry \<Rightarrow> log_entry list" where
  "log_push logs e = logs @ [e]"

definition log_trim :: "log_entry list \<Rightarrow> log_entry list" where
  "log_trim logs = (if length logs > 100 then tl logs else logs)"

definition append_log :: "log_entry list \<Rightarrow> log_entry \<Rightarrow> log_entry list" where
  "append_log logs e = log_trim (log_push logs e)"

text \<open>A sequence of appends, in order.\<close>

definition appends :: "log_entry list \<Rightarrow> log_entry list \<Rightarrow> log_entry list" where
  "appends logs es = foldl append_log logs es"

section \<open>The outside world\<close>

text \<open>
  The camera, the image libraries, the inference service and the clock are not part of
  the program. Each is an oracle of the environment: what the k-th call of \<open>cap.read()\<close>
  returns (\<open>None\<close> stands for \<open>ret\<close> false, \<open>Some frame\<close> for \<open>ret\<close> true with its
  frame), whether a handle reports \<open>isOpened()\<close>, what the two fallible steps of the
  JPEG encoding and the base64 step give, what \<open>ollama.chat\<close> does for an image and a
  frame number (the prompt is fixed by the frame number), and the formatted time at
  which a frame number is stamped. The calls \<open>cap.read\<close>, \<open>cap.release\<close>,
  \<open>time.sleep\<close> and the \<open>cv2.VideoCapture\<close> constructor report failure through their
  results and are taken not to raise.

  Standard output is a text stream with an encoding: \<open>print\<close> raises
  \<open>UnicodeEncodeError\<close> when the line holds a character the encoding cannot write, and
  writes the line otherwise. ASCII is part of every encoding; \<open>stdout_encodable\<close> says
  which other code points are, and \<open>codec_message\<close> is the text of the error. A stream
  that is closed or broken is not described. So the lines made of constants of the
  source (lines 50, 63, 66 and 94) are always written, and their \<open>print\<close> has no effect
  on the state described here; the two lines that carry text of the inference service
  (line 44, the text of the exception, and line 91, the description) can fail.
\<close>

type_synonym frame = "nat list"
type_synonym handle = nat

datatype chat_result = Raises py_exc | Returns pyval

record env =
  cap_isOpened :: "handle \<Rightarrow> bool"
  cam_read :: "nat \<Rightarrow> frame option"
  to_pil :: "frame \<Rightarrow> py_exc + nat list"
  save_jpeg :: "nat list \<Rightarrow> py_exc + nat list"
  b64encode :: "nat list \<Rightarrow> pystr"
  chat :: "pystr \<Rightarrow> int \<Rightarrow> chat_result"
  now :: "int \<Rightarrow> pystr"
  stdout_encodable :: "nat \<Rightarrow> bool"
  codec_message :: "pystr \<Rightarrow> pystr"

definition stdout_write :: "env \<Rightarrow> pystr \<Rightarrow> py_exc option" where
  "stdout_write env line =
     (if list_all (\<lambda>c. c < 128 \<or> stdout_encodable env c) line then None
      else Some (Exception ''UnicodeEncodeError'' (codec_message env line)))"

text \<open>
  The effects on the camera are recorded in order: every read, release, pause and open,
  with the handle it concerns. A handle is the number of the \<open>cv2.VideoCapture\<close> call
  that made it.
\<close>

datatype event =
    CapRead handle
  | CapRelease handle
  | Sleep nat
  | VideoCapture pystr handle

record camera =
  reads_done :: nat
  next_handle :: handle
  events :: "event list"

definition cap_read :: "env \<Rightarrow> camera \<Rightarrow> handle \<Rightarrow> camera \<times> frame option" where
  "cap_read env w h =
     (w\<lparr>reads_done := Suc (reads_done w), events := events w @ [CapRead h]\<rparr>,
      cam_read env (reads_done w))"

definition cap_release :: "camera \<Rightarrow> handle \<Rightarrow> camera" where
  "cap_release w h = w\<lparr>events := events w @ [CapRelease h]\<rparr>"

definition time_sleep :: "camera \<Rightarrow> nat \<Rightarrow> camera" where
  "time_sleep w secs = w\<lparr>events := events w @ [Sleep secs]\<rparr>"

definition video_capture :: "camera \<Rightarrow> pystr \<Rightarrow> camera \<times> handle" where
  "video_capture w url =
     (w\<lparr>next_handle := Suc (next_handle w),
        events := events w @ [VideoCapture url (next_handle w)]\<rparr>,
      next_handle w)"

section \<open>Helper functions of the program\<close>

definition CAMERA_URL :: pystr where
  "CAMERA_URL = str_lit ''cctv_tg.mp4''"

definition fallback_description :: pystr where
  "fallback_description = str_lit ''Everything looks normal.''"

text \<open>
  \<open>encode_image\<close>: colour conversion into a PIL image, JPEG into a buffer, base64 of the
  buffer. It has no handler of its own, so whatever a step raises leaves the function.
\<close>

definition encode_image :: "env \<Rightarrow> frame \<Rightarrow> py_exc + pystr" where
  "encode_image env img =
     (case to_pil env img of
        Inl e \<Rightarrow> Inl e
      | Inr pil_image \<Rightarrow>
          (case save_jpeg env pil_image of
             Inl e \<Rightarrow> Inl e
           | Inr buffered \<Rightarrow> Inr (b64encode env buffered)))"

text \<open>
  The expression of line 42,
  \<open>response.get("message", {}).get("content", "").strip() or "Everything looks normal."\<close>,
  on a response already returned.
\<close>

definition response_content :: "pyval \<Rightarrow> py_exc + pyval" where
  "response_content response =
     (case py_get response (str_lit ''message'') (PDict []) of
        Inl e \<Rightarrow> Inl e
      | Inr message \<Rightarrow> py_get message (str_lit ''content'') (PStr []))"

definition response_description :: "pyval \<Rightarrow> py_exc + pystr" where
  "response_description response =
     (case response_content response of
        Inl e \<Rightarrow> Inl e
      | Inr content \<Rightarrow>
          (case py_strip_method content of
             Inl e \<Rightarrow> Inl e
           | Inr stripped \<Rightarrow>
               Inr (if stripped \<noteq> [] then stripped else fallback_description)))"

text \<open>The body of the \<open>try\<close> of \<open>describe_image\<close>: the call, then line 42.\<close>

definition describe_try :: "env \<Rightarrow> pystr \<Rightarrow> int \<Rightarrow> py_exc + pystr" where
  "describe_try env base64_image n =
     (case chat env base64_image n of
        Raises e \<Rightarrow> Inl e
      | Returns response \<Rightarrow> response_description response)"

text \<open>
  \<open>describe_image\<close>: the handler \<open>except Exception as e\<close> prints
  \<open>f"Error describing image: {e}"\<close> (line 44) and then returns the fallback (line 45); what
  the \<open>print\<close> raises leaves the function, and an exception that is not an instance of
  \<open>Exception\<close> passes through the handler.
\<close>

definition error_line :: "py_exc \<Rightarrow> pystr" where
  "error_line e = str_lit ''Error describing image: '' @ exc_text e"

definition describe_image :: "env \<Rightarrow> pystr \<Rightarrow> int \<Rightarrow> py_exc + pystr" where
  "describe_image env base64_image n =
     (case describe_try env base64_image n of
        Inr d \<Rightarrow> Inr d
      | Inl e \<Rightarrow>
          (if is_Exception e then
             (case stdout_write env (error_line e) of
                Some e' \<Rightarrow> Inl e'
              | None \<Rightarrow> Inr fallback_description)
           else Inl e))"

text \<open>
  \<open>safe_read\<close>: one read; when it fails, release, sleep one second, open the source
  again and read once more. The handle returned is the one last used.
\<close>

definition safe_read ::
  "env \<Rightarrow> camera \<Rightarrow> handle \<Rightarrow> pystr \<Rightarrow> camera \<times> handle \<times> frame option" where
  "safe_read env w cap url =
     (case cap_read env w cap of
        (w1, Some frame) \<Rightarrow> (w1, cap, Some frame)
      | (w1, None) \<Rightarrow>
          (case video_capture (time_sleep (cap_release w1 cap) 1) url of
             (w2, cap') \<Rightarrow>
               (case cap_read env w2 cap' of
                  (w3, None) \<Rightarrow> (w3, cap', None)
                | (w3, Some frame) \<Rightarrow> (w3, cap', Some frame))))"

section \<open>The surveillance loop\<close>

datatype status = Running | Fatal | StoppedOnSignal | Crashed py_exc

record state =
  status :: status
  cap :: handle
  world :: camera
  frame_count :: int
  analysis_logs :: "log_entry list"

definition initial_camera :: camera where
  "initial_camera = \<lparr>reads_done = 0, next_handle = 0, events = []\<rparr>"

text \<open>
  Lines 64 to 69: open the source; when it is not opened, return at once (\<open>Fatal\<close>, before
  the \<open>try\<close>, so nothing is released). The module starts with \<open>analysis_logs = []\<close>.
\<close>

definition surveillance_start :: "env \<Rightarrow> state" where
  "surveillance_start env =
     (case video_capture initial_camera CAMERA_URL of
        (w, c) \<Rightarrow>
          \<lparr>status = (if \<not> cap_isOpened env c then Fatal else Running),
           cap = c, world = w, frame_count = 0, analysis_logs = []\<rparr>)"

text \<open>
  Lines 77 to 86 for a frame that was read and numbered \<open>n\<close>: timestamp, encoding,
  description, and the entry built from them.
\<close>

definition process_frame :: "env \<Rightarrow> int \<Rightarrow> frame \<Rightarrow> py_exc + log_entry" where
  "process_frame env n frame =
     (case encode_image env frame of
        Inl e \<Rightarrow> Inl e
      | Inr encoded_img \<Rightarrow>
          (case describe_image env encoded_img n of
             Inl e \<Rightarrow> Inl e
           | Inr d \<Rightarrow> Inr \<lparr>frame_number = n, timestamp = now env n, description = d\<rparr>))"

text \<open>
  An exception that leaves the loop body: \<open>except KeyboardInterrupt\<close> stops the monitor
  (its \<open>print\<close> is a constant line), any other exception ends the function with it;
  \<open>finally\<close> releases the handle in both cases.
\<close>

definition loop_exit :: "state \<Rightarrow> py_exc \<Rightarrow> state" where
  "loop_exit s e =
     s\<lparr>status := (if e = KeyboardInterrupt then StoppedOnSignal else Crashed e),
       world := cap_release (world s) (cap s)\<rparr>"

text \<open>
  Line 91, \<open>print(f"Frame {frame_count}: {description}")\<close>, runs after the append and the
  trim, inside the \<open>try\<close>: what it raises leaves the loop body like any other exception.
\<close>

definition frame_line :: "int \<Rightarrow> pystr \<Rightarrow> pystr" where
  "frame_line n d = str_lit ''Frame '' @ py_str_int n @ str_lit '': '' @ d"

definition print_frame :: "env \<Rightarrow> state \<Rightarrow> log_entry \<Rightarrow> state" where
  "print_frame env s entry =
     (case stdout_write env (frame_line (frame_number entry) (description entry)) of
        None \<Rightarrow> s
      | Some e \<Rightarrow> loop_exit s e)"

text \<open>One pass through the body of \<open>while True\<close> (lines 72 to 91).\<close>

definition loop_iteration :: "env \<Rightarrow> state \<Rightarrow> state" where
  "loop_iteration env s =
     (if status s \<noteq> Running then s
      else
        (case safe_read env (world s) (cap s) CAMERA_URL of
           (w, c, None) \<Rightarrow> s\<lparr>cap := c, world := w\<rparr>
         | (w, c, Some frame) \<Rightarrow>
             (case process_frame env (frame_count s + 1) frame of
                Inl e \<Rightarrow> loop_exit (s\<lparr>cap := c, world := w, frame_count := frame_count s + 1\<rparr>) e
              | Inr entry \<Rightarrow>
                  print_frame env
                    (s\<lparr>cap := c, world := w, frame_count := frame_count s + 1,
                       analysis_logs := append_log (analysis_logs s) entry\<rparr>)
                    entry)))"

text \<open>
  The loop never ends by itself, so a run is observed after a number of passes:
  \<open>run env n\<close> is the state after the start and \<open>n\<close> passes.
\<close>

primrec run :: "env \<Rightarrow> nat \<Rightarrow> state" where
  "run env 0 = surveillance_start env"
| "run env (Suc n) = loop_iteration env (run env n)"

text \<open>
  The entry a pass hands to line 87, if the pass gets that far, and the entries appended
  by the first \<open>n\<close> passes of a run, in the order of their appends.
\<close>

definition iteration_entry :: "env \<Rightarrow> state \<Rightarrow> log_entry option" where
  "iteration_entry env s =
     (if status s \<noteq> Running then None
      else
        (case safe_read env (world s) (cap s) CAMERA_URL of
           (w, c, None) \<Rightarrow> None
         | (w, c, Some frame) \<Rightarrow>
             (case process_frame env (frame_count s + 1) frame of
                Inl e \<Rightarrow> None
              | Inr entry \<Rightarrow> Some entry)))"

primrec appended :: "env \<Rightarrow> nat \<Rightarrow> log_entry list" where
  "appended env 0 = []"
| "appended env (Suc n) =
     appended env n @ (case iteration_entry env (run env n) of None \<Rightarrow> [] | Some e \<Rightarrow> [e])"

text \<open>\<open>get_logs\<close> (the \<open>/logs\<close> handler) serialises the list as it stands and changes nothing.\<close>

definition get_logs :: "state \<Rightarrow> log_entry list" where
  "get_logs s = analysis_logs s"

section \<open>Concrete inputs\<close>

text \<open>Entries, stores and environments on which the theorems below are exercised.\<close>

definition sample_entry :: "nat \<Rightarrow> log_entry" where
  "sample_entry i = \<lparr>frame_number = int i, timestamp = [], description = []\<rparr>"

definition full_store :: "log_entry list" where
  "full_store = map sample_entry [1..<101]"

text \<open>
  A source that opens, fails its first read and delivers from the second on. The service
  answers frame 1 with padded text, fails on frame 2 with a connection error, answers
  frame 3 with blank content and every later frame with a response without a message.
  Standard output is UTF-8: it writes every code point but the surrogates.
\<close>

definition connection_error :: py_exc where
  "connection_error = Exception ''ConnectionError'' (str_lit ''connection refused'')"

definition cv2_error :: py_exc where
  "cv2_error = Exception ''cv2.error'' (str_lit ''bad image'')"

definition unicode_encode_error :: py_exc where
  "unicode_encode_error = Exception ''UnicodeEncodeError'' (str_lit ''surrogates not allowed'')"

definition sample_chat :: "pystr \<Rightarrow> int \<Rightarrow> chat_result" where
  "sample_chat base64_image n =
     (if n = 1 then
        Returns (PDict [(str_lit ''message'', PDict [(str_lit ''content'', PStr (str_lit '' a cat ''))])])
      else if n = 2 then Raises connection_error
      else if n = 3 then
        Returns (PDict [(str_lit ''message'', PDict [(str_lit ''content'', PStr (str_lit ''  ''))])])
      else Returns (PDict []))"

definition stamp :: pystr where
  "stamp = str_lit ''2025-01-01 00:00:00''"

definition env_ok :: env where
  "env_ok =
     \<lparr>cap_isOpened = (\<lambda>h. True),
      cam_read = (\<lambda>k. if k = 0 then None else Some [10, 20, 30]),
      to_pil = (\<lambda>f. Inr f),
      save_jpeg = (\<lambda>p. Inr p),
      b64encode = (\<lambda>b. b),
      chat = sample_chat,
      now = (\<lambda>n. stamp),
      stdout_encodable = (\<lambda>c. c < 55296 \<or> 57343 < c),
      codec_message = (\<lambda>line. str_lit ''surrogates not allowed'')\<rparr>"

text \<open>
  The same, with a colour conversion that raises, with a source that does not open, and
  with a source whose reads all fail; and a running state that has logged three frames.
\<close>

definition env_encode_fails :: env where
  "env_encode_fails = env_ok\<lparr>to_pil := (\<lambda>f. Inl cv2_error)\<rparr>"


definition env_dead :: env where
  "env_dead = env_ok\<lparr>cam_read := (\<lambda>k. None)\<rparr>"

definition three_logged :: state where
  "three_logged =
     \<lparr>status = Running, cap = 2,
      world = \<lparr>reads_done = 5, next_handle = 3, events = []\<rparr>,
      frame_count = 3,
      analysis_logs = [sample_entry 1, sample_entry 2, sample_entry 3]\<rparr>"

text \<open>
  A service whose error text, and a service whose description, holds the lone surrogate
  U+D800, which UTF-8 cannot write.
\<close>

definition env_error_unprintable :: env where
  "env_error_unprintable =
     env_ok\<lparr>chat := (\<lambda>base64_image n. Raises (Exception ''ResponseError'' [55296]))\<rparr>"


definition padded_response :: pyval where
  "padded_response =
     PDict [(str_lit ''message'', PDict [(str_lit ''content'', PStr (str_lit '' a cat ''))])]"

definition blank_response :: pyval where
  "blank_response =
     PDict [(str_lit ''message'', PDict [(str_lit ''content'', PStr (str_lit ''  ''))])]"

section \<open>The bounded buffer\<close>

lemma append_log_below:
  "length logs < 100 \<Longrightarrow> append_log logs e = logs @ [e]"
  by (simp add: append_log_def log_push_def log_trim_def)

lemma append_log_full:
  "length logs = 100 \<Longrightarrow> append_log logs e = tl logs @ [e]"
  by (cases logs) (simp_all add: append_log_def log_push_def log_trim_def)

lemma tl_drop_Suc: "tl (drop n xs) = drop (Suc n) xs"
  by (simp add: drop_Suc tl_drop)

lemma appends_snoc: "appends logs (es @ [e]) = append_log (appends logs es) e"
  by (simp add: appends_def)

lemma appends_drop:
  "length logs \<le> 100 \<Longrightarrow>
   appends logs es = drop (length (logs @ es) - 100) (logs @ es)"
proof (induction es rule: rev_induct)
  case Nil
  then show ?case by (simp add: appends_def)
next
  case (snoc e es)
  let ?all = "logs @ es"
  have ih: "appends logs es = drop (length ?all - 100) ?all"
    using snoc by simp
  show ?case
  proof (cases "length ?all < 100")
    case True
    then have "appends logs es = ?all" using ih by simp
    then have "appends logs (es @ [e]) = ?all @ [e]"
      using True by (simp add: appends_snoc append_log_below)
    then show ?thesis using True by simp
  next
    case False
    then have len: "length (appends logs es) = 100" using ih by simp
    have "Suc (length ?all - 100) = Suc (length ?all) - 100"
      using False by arith
    then have "tl (drop (length ?all - 100) ?all) = drop (Suc (length ?all) - 100) ?all"
      using tl_drop_Suc [of "length ?all - 100" ?all] by (simp only:)
    then have "appends logs (es @ [e]) = drop (Suc (length ?all) - 100) ?all @ [e]"
      using len ih by (simp add: appends_snoc append_log_full)
    moreover have "drop (length (logs @ es @ [e]) - 100) (logs @ es @ [e])
        = drop (Suc (length ?all) - 100) ?all @ [e]"
      using False by simp
    ultimately show ?thesis by simp
  qed
qed

text \<open>
  Claim C1. After any sequence of N appends with N greater than 100, made on a store that
  holds at most 100 entries (it is empty when the program starts), the store holds
  exactly 100 entries, and they are the last 100 entries appended, oldest first.
\<close>

theorem bounded_buffer_keeps_most_recent:
  assumes "length logs \<le> 100" and "length es > 100"
  shows "length (appends logs es) = 100 \<and> appends logs es = drop (length es - 100) es"
proof -
  have "appends logs es = drop (length (logs @ es) - 100) (logs @ es)"
    using assms(1) by (rule appends_drop)
  also have "\<dots> = drop (length es - 100) es"
    using assms(2) by simp
  finally have eq: "appends logs es = drop (length es - 100) es" .
  then show ?thesis using assms(2) by simp
qed

theorem bounded_buffer_keeps_most_recent_witness:
  "length ([] :: log_entry list) \<le> 100 \<and> length (map sample_entry [1..<102]) > 100 \<and>
   length (appends [] (map sample_entry [1..<102])) = 100 \<and>
   appends [] (map sample_entry [1..<102]) = map sample_entry [2..<102]"
proof -
  let ?es = "map sample_entry [1..<102]"
  have h1: "length ([] :: log_entry list) \<le> 100" by simp
  have h2: "length ?es > 100" by simp
  have "length ?es - 100 = 1" by simp
  moreover have "drop 1 ?es = map sample_entry [1 + 1..<102]"
    by (simp only: drop_map drop_upt)
  ultimately have d: "drop (length ?es - 100) ?es = map sample_entry [2..<102]"
    by (simp only: one_add_one)
  note t = bounded_buffer_keeps_most_recent [OF h1 h2]
  from t have a: "length (appends [] ?es) = 100" by (rule conjunct1)
  from t have "appends [] ?es = drop (length ?es - 100) ?es" by (rule conjunct2)
  then have b: "appends [] ?es = map sample_entry [2..<102]" by (simp only: d)
  show ?thesis using h1 h2 a b by blast
qed

section \<open>The describer\<close>

lemma all_dropWhile_iff: "(\<forall>x \<in> set (dropWhile P xs). P x) \<longleftrightarrow> (\<forall>x \<in> set xs. P x)"
  by (induction xs) auto

lemma py_strip_Nil_iff: "py_strip s = [] \<longleftrightarrow> (\<forall>c \<in> set s. py_isspace c)"
  by (simp add: py_strip_def dropWhile_eq_Nil_conv all_dropWhile_iff)

lemma last_dropWhile_same:
  "dropWhile P xs \<noteq> [] \<Longrightarrow> last (dropWhile P xs) = last xs"
  by (induction xs) (auto split: if_splits)

lemma py_strip_ends:
  assumes "py_strip s \<noteq> []"
  shows "\<not> py_isspace (hd (py_strip s)) \<and> \<not> py_isspace (last (py_strip s))"
proof -
  let ?t = "dropWhile py_isspace s"
  let ?u = "dropWhile py_isspace (rev ?t)"
  have u: "?u \<noteq> []" using assms by (simp add: py_strip_def)
  have t: "?t \<noteq> []"
  proof
    assume a: "?t = []"
    have "?u = []" unfolding a by simp
    with u show False by contradiction
  qed
  have "last (py_strip s) = hd ?u" using u by (simp add: py_strip_def last_rev)
  moreover have "\<not> py_isspace (hd ?u)" using u by (rule hd_dropWhile)
  moreover have "hd (py_strip s) = last ?u" using u by (simp add: py_strip_def hd_rev)
  moreover have "last ?u = last (rev ?t)" using u by (rule last_dropWhile_same)
  moreover have "last (rev ?t) = hd ?t" using t by (simp add: last_rev)
  moreover have "\<not> py_isspace (hd ?t)" using t by (rule hd_dropWhile)
  ultimately show ?thesis by simp
qed

lemma fallback_description_ends:
  "fallback_description \<noteq> [] \<and> \<not> py_isspace (hd fallback_description) \<and>
   \<not> py_isspace (last fallback_description)"
  by (simp add: fallback_description_def str_lit_def py_isspace_def)

lemma response_description_cases:
  "response_description r = Inr d \<Longrightarrow>
   d = fallback_description \<or> (\<exists>c. response_content r = Inr (PStr c) \<and> d = py_strip c \<and> py_strip c \<noteq> [])"
  by (auto simp: response_description_def py_strip_method_def split: sum.splits pyval.splits if_splits)

lemma ascii_line_written:
  "list_all (\<lambda>c. c < 128) line \<Longrightarrow> stdout_write env line = None"
  by (induction line) (auto simp: stdout_write_def split: if_splits)

lemma attribute_error_is_Exception: "is_Exception (attribute_error v attr)"
  by (simp add: attribute_error_def)

lemma attribute_error_get_written:
  "stdout_write env (error_line (attribute_error v ''get'')) = None"
  by (rule ascii_line_written)
     (cases v; simp add: error_line_def attribute_error_def str_lit_def)

lemma attribute_error_strip_written:
  "stdout_write env (error_line (attribute_error v ''strip'')) = None"
  by (rule ascii_line_written)
     (cases v; simp add: error_line_def attribute_error_def str_lit_def)

lemma response_error_cases:
  "response_description r = Inl e \<Longrightarrow>
   \<exists>v. e = attribute_error v ''get'' \<or> e = attribute_error v ''strip''"
  by (auto simp: response_description_def response_content_def py_strip_method_def py_get_def
      split: sum.splits pyval.splits option.splits)

lemma response_error_is_Exception:
  "response_description r = Inl e \<Longrightarrow> is_Exception e"
  using response_error_cases attribute_error_is_Exception by blast

lemma response_error_written:
  assumes "response_description r = Inl e"
  shows "stdout_write env (error_line e) = None"
proof -
  from assms obtain v where "e = attribute_error v ''get'' \<or> e = attribute_error v ''strip''"
    using response_error_cases by blast
  then show ?thesis
    using attribute_error_get_written [of env v] attribute_error_strip_written [of env v]
    by auto
qed

lemma describe_image_Returns:
  "chat env img n = Returns r \<Longrightarrow>
   describe_image env img n =
     (case response_description r of Inr d \<Rightarrow> Inr d | Inl e \<Rightarrow> Inr fallback_description)"
  by (auto simp: describe_image_def describe_try_def response_error_written
      dest: response_error_is_Exception split: sum.splits)

lemma describe_image_content:
  assumes "chat env img n = Returns r" and "response_content r = Inr (PStr c)"
  shows "describe_image env img n =
           Inr (if py_strip c \<noteq> [] then py_strip c else fallback_description)"
proof -
  have "response_description r =
      Inr (if py_strip c \<noteq> [] then py_strip c else fallback_description)"
    using assms(2) by (simp add: response_description_def py_strip_method_def)
  then show ?thesis using assms(1) by (simp add: describe_image_Returns)
qed

lemma error_line_connection_error_written:
  "stdout_write env (error_line connection_error) = None"
  by (rule ascii_line_written) (simp add: error_line_def connection_error_def str_lit_def)

text \<open>
  Not every error of the inference call ends in the fallback: the handler prints the text
  of the exception before it returns, and when that text cannot be written the
  \<open>UnicodeEncodeError\<close> of the \<open>print\<close> leaves \<open>describe_image\<close>.
\<close>

theorem unprintable_error_escapes_describe_image:
  "chat env_error_unprintable [] 1 = Raises (Exception ''ResponseError'' [55296]) \<and>
   is_Exception (Exception ''ResponseError'' [55296]) \<and>
   stdout_write env_error_unprintable (error_line (Exception ''ResponseError'' [55296])) =
     Some unicode_encode_error \<and>
   describe_image env_error_unprintable [] 1 = Inl unicode_encode_error"
  by (simp add: describe_image_def describe_try_def env_error_unprintable_def env_ok_def
      stdout_write_def error_line_def unicode_encode_error_def)

text \<open>
  Claim C3, as the code has it. When the inference call raises an error (an instance of
  \<open>Exception\<close>) whose line 44 is printed without failure, or returns a response whose
  content is empty, \<open>describe_image\<close> returns the fixed string "Everything looks normal."
  as an ordinary result: nothing is raised to the caller.
\<close>

theorem describe_image_fallback:
  assumes "(\<exists>e. chat env img n = Raises e \<and> is_Exception e \<and>
                stdout_write env (error_line e) = None) \<or>
           (\<exists>r. chat env img n = Returns r \<and> response_content r = Inr (PStr []))"
  shows "describe_image env img n = Inr fallback_description"
  using assms
proof
  assume "\<exists>e. chat env img n = Raises e \<and> is_Exception e \<and>
    stdout_write env (error_line e) = None"
  then show ?thesis by (auto simp: describe_image_def describe_try_def)
next
  assume "\<exists>r. chat env img n = Returns r \<and> response_content r = Inr (PStr [])"
  then obtain r where r: "chat env img n = Returns r" "response_content r = Inr (PStr [])"
    by blast
  show ?thesis using describe_image_content [OF r] by (simp add: py_strip_def)
qed

theorem describe_image_fallback_witness:
  "chat env_ok [] 2 = Raises connection_error \<and>
   is_Exception connection_error \<and>
   stdout_write env_ok (error_line connection_error) = None \<and>
   describe_image env_ok [] 2 = Inr fallback_description \<and>
   chat env_ok [] 4 = Returns (PDict []) \<and>
   response_content (PDict []) = Inr (PStr []) \<and>
   describe_image env_ok [] 4 = Inr fallback_description"
proof -
  have r: "chat env_ok [] 2 = Raises connection_error"
    by (simp add: env_ok_def sample_chat_def)
  have e: "is_Exception connection_error" by (simp add: connection_error_def)
  have w: "stdout_write env_ok (error_line connection_error) = None"
    by (rule error_line_connection_error_written)
  have k: "chat env_ok [] 4 = Returns (PDict [])"
    by (simp add: env_ok_def sample_chat_def)
  have c: "response_content (PDict []) = Inr (PStr [])"
    by (simp add: response_content_def py_get_def)
  have "describe_image env_ok [] 2 = Inr fallback_description"
    using r e w by (intro describe_image_fallback) blast
  moreover have "describe_image env_ok [] 4 = Inr fallback_description"
    using k c by (intro describe_image_fallback) blast
  ultimately show ?thesis using r e w k c by blast
qed

text \<open>
  Claim C10. For every response the inference call returns, \<open>describe_image\<close> returns
  either the content of the response with the whitespace at both ends removed, or the
  fixed fallback string: the stripped content whenever the content is a string that is
  not empty once stripped, the fallback otherwise. The description returned is never
  empty and neither starts nor ends with whitespace, and content made of whitespace only
  gives the fallback, as empty content does.
\<close>

theorem describe_image_stripped_or_fallback:
  assumes "chat env img n = Returns r"
  shows "\<exists>d. describe_image env img n = Inr d \<and>
           (d = fallback_description \<or> (\<exists>c. response_content r = Inr (PStr c) \<and> d = py_strip c)) \<and>
           d \<noteq> [] \<and> \<not> py_isspace (hd d) \<and> \<not> py_isspace (last d) \<and>
           (\<forall>c. response_content r = Inr (PStr c) \<and> (\<forall>x \<in> set c. py_isspace x)
                \<longrightarrow> d = fallback_description) \<and>
           (\<forall>c. response_content r = Inr (PStr c) \<and> py_strip c \<noteq> [] \<longrightarrow> d = py_strip c) \<and>
           ((\<forall>c. response_content r \<noteq> Inr (PStr c)) \<longrightarrow> d = fallback_description)"
proof (cases "response_description r")
  case (Inl e)
  then have d: "describe_image env img n = Inr fallback_description"
    using assms by (simp add: describe_image_Returns)
  have "response_content r \<noteq> Inr (PStr c)" for c
    using Inl by (auto simp: response_description_def py_strip_method_def)
  then show ?thesis using d fallback_description_ends by simp
next
  case (Inr d)
  then have di: "describe_image env img n = Inr d"
    using assms by (simp add: describe_image_Returns)
  from Inr have alt: "d = fallback_description \<or>
      (\<exists>c. response_content r = Inr (PStr c) \<and> d = py_strip c \<and> py_strip c \<noteq> [])"
    by (rule response_description_cases)
  have ends: "d \<noteq> [] \<and> \<not> py_isspace (hd d) \<and> \<not> py_isspace (last d)"
    using alt fallback_description_ends py_strip_ends by auto
  have blank: "d = fallback_description"
    if "response_content r = Inr (PStr c)" "\<forall>x \<in> set c. py_isspace x" for c
    using that Inr by (simp add: response_description_def py_strip_method_def py_strip_Nil_iff)
  have kept: "d = py_strip c"
    if "response_content r = Inr (PStr c)" "py_strip c \<noteq> []" for c
    using that Inr by (simp add: response_description_def py_strip_method_def)
  have other: "d = fallback_description" if "\<forall>c. response_content r \<noteq> Inr (PStr c)"
    using that alt by blast
  show ?thesis using di alt ends blank kept other by blast
qed

theorem describe_image_stripped_or_fallback_witness:
  "chat env_ok [] 1 = Returns padded_response \<and>
   response_content padded_response = Inr (PStr (str_lit '' a cat '')) \<and>
   py_strip (str_lit '' a cat '') = str_lit ''a cat'' \<and>
   describe_image env_ok [] 1 = Inr (str_lit ''a cat'') \<and>
   chat env_ok [] 3 = Returns blank_response \<and>
   response_content blank_response = Inr (PStr (str_lit ''  '')) \<and>
   describe_image env_ok [] 3 = Inr fallback_description"
proof -
  have h1: "chat env_ok [] 1 = Returns padded_response"
    by (simp add: env_ok_def sample_chat_def padded_response_def)
  have c1: "response_content padded_response = Inr (PStr (str_lit '' a cat ''))"
    by (simp add: response_content_def py_get_def padded_response_def str_lit_def)
  have s1: "py_strip (str_lit '' a cat '') = str_lit ''a cat''"
    by (simp add: py_strip_def str_lit_def py_isspace_def)
  have n1: "py_strip (str_lit '' a cat '') \<noteq> []"
    by (simp add: s1) (simp add: str_lit_def)
  from describe_image_stripped_or_fallback [OF h1]
  obtain d1 where d1: "describe_image env_ok [] 1 = Inr d1"
    and kept: "\<forall>c. response_content padded_response = Inr (PStr c) \<and> py_strip c \<noteq> []
        \<longrightarrow> d1 = py_strip c"
    by blast
  from kept c1 n1 have "d1 = py_strip (str_lit '' a cat '')" by blast
  then have r1: "describe_image env_ok [] 1 = Inr (str_lit ''a cat'')"
    using d1 s1 by simp
  have h: "chat env_ok [] 3 = Returns blank_response"
    by (simp add: env_ok_def sample_chat_def blank_response_def)
  have c: "response_content blank_response = Inr (PStr (str_lit ''  ''))"
    by (simp add: response_content_def py_get_def blank_response_def str_lit_def)
  have ws: "\<forall>x \<in> set (str_lit ''  ''). py_isspace x"
    by (simp add: str_lit_def py_isspace_def)
  from describe_image_stripped_or_fallback [OF h]
  obtain d where d: "describe_image env_ok [] 3 = Inr d"
    and blank: "\<forall>c. response_content blank_response = Inr (PStr c) \<and>
        (\<forall>x \<in> set c. py_isspace x) \<longrightarrow> d = fallback_description"
    by blast
  from blank c ws have "d = fallback_description" by blast
  then have r3: "describe_image env_ok [] 3 = Inr fallback_description" using d by simp
  show ?thesis using h1 c1 s1 r1 h c r3 by blast
qed

section \<open>Reading a frame\<close>

lemma safe_read_first_ok:
  "cam_read env (reads_done w) = Some f \<Longrightarrow>
   safe_read env w c url =
     (w\<lparr>reads_done := Suc (reads_done w), events := events w @ [CapRead c]\<rparr>, c, Some f)"
  by (simp add: safe_read_def cap_read_def)

text \<open>
  Claim C5. When the first read fails, \<open>safe_read\<close> releases the handle, sleeps one
  second, opens the source again and reads exactly once more: these are its only effects,
  in this order, with a single reopen. Its result for the cycle is the result of that
  second read, so it is "no frame" (\<open>None\<close>) when the second read fails too and the frame
  when the second read succeeds; in both cases it returns, with the new handle, and
  raises nothing.
\<close>

theorem safe_read_reconnects_once:
  assumes "cam_read env (reads_done w) = None"
  shows "safe_read env w c url =
     (w\<lparr>reads_done := reads_done w + 2,
        next_handle := Suc (next_handle w),
        events := events w @ [CapRead c, CapRelease c, Sleep 1,
                              VideoCapture url (next_handle w), CapRead (next_handle w)]\<rparr>,
      next_handle w,
      cam_read env (Suc (reads_done w)))"
  using assms
  by (cases "cam_read env (Suc (reads_done w))")
     (simp_all add: safe_read_def cap_read_def cap_release_def time_sleep_def video_capture_def)

theorem safe_read_reconnects_once_witness:
  "cam_read env_ok (reads_done \<lparr>reads_done = 0, next_handle = 1, events = []\<rparr>) = None \<and>
   safe_read env_ok \<lparr>reads_done = 0, next_handle = 1, events = []\<rparr> 0 CAMERA_URL =
     (\<lparr>reads_done = 2, next_handle = 2,
       events = [CapRead 0, CapRelease 0, Sleep 1, VideoCapture CAMERA_URL 1, CapRead 1]\<rparr>,
      1, Some [10, 20, 30])"
proof -
  let ?w = "\<lparr>reads_done = 0, next_handle = 1, events = []\<rparr>"
  have h: "cam_read env_ok (reads_done ?w) = None"
    by (simp add: env_ok_def)
  show ?thesis
    using h safe_read_reconnects_once [OF h, of 0 CAMERA_URL]
    by (simp add: env_ok_def)
qed

section \<open>One pass of the loop\<close>

lemma process_frame_encode_raises:
  "encode_image env frame = Inl e \<Longrightarrow> process_frame env n frame = Inl e"
  by (simp add: process_frame_def)

lemma process_frame_encoded:
  "encode_image env frame = Inr img \<Longrightarrow>
   process_frame env n frame =
     (case describe_image env img n of
        Inl e \<Rightarrow> Inl e
      | Inr d \<Rightarrow> Inr \<lparr>frame_number = n, timestamp = now env n, description = d\<rparr>)"
  by (simp add: process_frame_def)

lemma process_frame_number:
  "process_frame env n frame = Inr entry \<Longrightarrow> frame_number entry = n"
  by (auto simp: process_frame_def split: sum.splits)

lemma describe_try_error:
  "describe_try env img n = Inl e \<Longrightarrow>
   chat env img n = Raises e \<or> (is_Exception e \<and> stdout_write env (error_line e) = None)"
  by (auto simp: describe_try_def response_error_written split: chat_result.splits
      dest: response_error_is_Exception)

lemma describe_image_raises:
  assumes "describe_image env img n = Inl e"
  shows "(chat env img n = Raises e \<and> \<not> is_Exception e) \<or>
         (\<exists>e0. chat env img n = Raises e0 \<and> is_Exception e0 \<and>
               stdout_write env (error_line e0) = Some e)"
proof (cases "describe_try env img n")
  case (Inr d)
  then show ?thesis using assms by (simp add: describe_image_def)
next
  case (Inl e0)
  show ?thesis
  proof (cases "is_Exception e0")
    case False
    then have "e = e0" using assms Inl by (simp add: describe_image_def)
    then show ?thesis using False Inl describe_try_error by blast
  next
    case True
    then have w: "stdout_write env (error_line e0) = Some e"
      using assms Inl by (simp add: describe_image_def split: option.splits)
    then have "chat env img n = Raises e0" using describe_try_error [OF Inl] by auto
    then show ?thesis using True w by blast
  qed
qed

lemma describe_image_empty_content:
  assumes "chat env img n = Returns r" and "response_content r = Inr (PStr c)"
    and "py_strip c = []"
  shows "describe_image env img n = Inr fallback_description"
  using describe_image_content [OF assms(1,2)] assms(3) by simp

lemma describe_image_absorbs:
  assumes "\<forall>e. chat env img n = Raises e \<longrightarrow>
             is_Exception e \<and> stdout_write env (error_line e) = None"
  shows "\<exists>d. describe_image env img n = Inr d \<and>
             (\<forall>e. describe_try env img n = Inl e \<longrightarrow> d = fallback_description) \<and>
             (\<forall>r c. chat env img n = Returns r \<and> response_content r = Inr (PStr c) \<and>
                    py_strip c = [] \<longrightarrow> d = fallback_description)"
proof (cases "describe_try env img n")
  case (Inl e)
  then have "is_Exception e \<and> stdout_write env (error_line e) = None"
    using assms describe_try_error by blast
  then show ?thesis using Inl by (simp add: describe_image_def)
next
  case (Inr d)
  then have d: "describe_image env img n = Inr d" by (simp add: describe_image_def)
  have "d = fallback_description"
    if "chat env img n = Returns r" "response_content r = Inr (PStr c)" "py_strip c = []" for r c
    using describe_image_empty_content [OF that] d by simp
  then show ?thesis using d Inr by auto
qed

lemma loop_iteration_halted:
  "status s \<noteq> Running \<Longrightarrow> loop_iteration env s = s"
  by (simp add: loop_iteration_def)

lemma loop_iteration_no_frame:
  "status s = Running \<Longrightarrow> safe_read env (world s) (cap s) CAMERA_URL = (w, c, None) \<Longrightarrow>
   loop_iteration env s = s\<lparr>cap := c, world := w\<rparr>"
  by (simp add: loop_iteration_def)

lemma loop_iteration_raises:
  "status s = Running \<Longrightarrow> safe_read env (world s) (cap s) CAMERA_URL = (w, c, Some frame) \<Longrightarrow>
   process_frame env (frame_count s + 1) frame = Inl e \<Longrightarrow>
   loop_iteration env s =
     loop_exit (s\<lparr>cap := c, world := w, frame_count := frame_count s + 1\<rparr>) e"
  by (simp add: loop_iteration_def)

lemma loop_iteration_appends:
  "status s = Running \<Longrightarrow> safe_read env (world s) (cap s) CAMERA_URL = (w, c, Some frame) \<Longrightarrow>
   process_frame env (frame_count s + 1) frame = Inr entry \<Longrightarrow>
   loop_iteration env s =
     print_frame env
       (s\<lparr>cap := c, world := w, frame_count := frame_count s + 1,
          analysis_logs := append_log (analysis_logs s) entry\<rparr>)
       entry"
  by (simp add: loop_iteration_def)

lemma loop_exit_fields:
  "status (loop_exit s e) = (if e = KeyboardInterrupt then StoppedOnSignal else Crashed e)"
  "analysis_logs (loop_exit s e) = analysis_logs s"
  "frame_count (loop_exit s e) = frame_count s"
  by (simp_all add: loop_exit_def)


lemma print_frame_fields:
  "analysis_logs (print_frame env s entry) = analysis_logs s"
  "frame_count (print_frame env s entry) = frame_count s"
  by (simp_all add: print_frame_def loop_exit_fields split: option.splits)

lemma print_frame_written:
  "stdout_write env (frame_line (frame_number entry) (description entry)) = None \<Longrightarrow>
   print_frame env s entry = s"
  by (simp add: print_frame_def)

lemma print_frame_raises:
  "stdout_write env (frame_line (frame_number entry) (description entry)) = Some e \<Longrightarrow>
   print_frame env s entry = loop_exit s e"
  by (simp add: print_frame_def)

lemma print_frame_Running:
  "status (print_frame env s entry) = Running \<Longrightarrow> status s = Running"
  by (simp add: print_frame_def loop_exit_def split: option.splits if_splits)


text \<open>
  The ways out of the running state: a frame was read, and either its processing raised
  (in \<open>encode_image\<close>, or out of \<open>describe_image\<close>) or the \<open>print\<close> of line 91 did.
\<close>

lemma loop_iteration_leaves_Running:
  assumes "status s = Running" and "status (loop_iteration env s) \<noteq> Running"
  shows "\<exists>w c frame. safe_read env (world s) (cap s) CAMERA_URL = (w, c, Some frame) \<and>
           ((\<exists>e. process_frame env (frame_count s + 1) frame = Inl e) \<or>
            (\<exists>entry e. process_frame env (frame_count s + 1) frame = Inr entry \<and>
               stdout_write env (frame_line (frame_number entry) (description entry)) = Some e))"
proof -
  obtain w c fr where sr: "safe_read env (world s) (cap s) CAMERA_URL = (w, c, fr)"
    by (cases "safe_read env (world s) (cap s) CAMERA_URL") auto
  show ?thesis
  proof (cases fr)
    case None
    then show ?thesis using assms sr by (simp add: loop_iteration_no_frame)
  next
    case (Some frame)
    show ?thesis
    proof (cases "process_frame env (frame_count s + 1) frame")
      case (Inl e)
      then show ?thesis using sr Some by blast
    next
      case (Inr entry)
      show ?thesis
      proof (cases "stdout_write env (frame_line (frame_number entry) (description entry))")
        case None
        then show ?thesis
          using assms sr Some Inr by (simp add: loop_iteration_appends print_frame_written)
      next
        case (Some e)
        then show ?thesis using sr \<open>fr = Some frame\<close> Inr by blast
      qed
    qed
  qed
qed

lemma iteration_entry_Some:
  assumes "iteration_entry env s = Some e"
  shows "status s = Running \<and> frame_number e = frame_count s + 1 \<and>
         frame_count (loop_iteration env s) = frame_count s + 1 \<and>
         analysis_logs (loop_iteration env s) = append_log (analysis_logs s) e"
proof -
  have run: "status s = Running"
    using assms by (simp add: iteration_entry_def split: if_splits)
  obtain w c fr where sr: "safe_read env (world s) (cap s) CAMERA_URL = (w, c, fr)"
    by (cases "safe_read env (world s) (cap s) CAMERA_URL") auto
  obtain frame where fr: "fr = Some frame"
    using assms run sr by (cases fr) (simp_all add: iteration_entry_def)
  have pf: "process_frame env (frame_count s + 1) frame = Inr e"
    using assms run sr fr by (simp add: iteration_entry_def split: sum.splits)
  have it: "loop_iteration env s =
      print_frame env
        (s\<lparr>cap := c, world := w, frame_count := frame_count s + 1,
           analysis_logs := append_log (analysis_logs s) e\<rparr>)
        e"
    using run sr fr pf by (simp add: loop_iteration_appends)
  show ?thesis using run pf by (simp add: it print_frame_fields process_frame_number)
qed

lemma iteration_entry_None:
  assumes "iteration_entry env s = None"
  shows "analysis_logs (loop_iteration env s) = analysis_logs s \<and>
         (status (loop_iteration env s) = Running \<longrightarrow>
            status s = Running \<and> frame_count (loop_iteration env s) = frame_count s)"
proof (cases "status s = Running")
  case False
  then show ?thesis by (simp add: loop_iteration_halted)
next
  case True
  obtain w c fr where sr: "safe_read env (world s) (cap s) CAMERA_URL = (w, c, fr)"
    by (cases "safe_read env (world s) (cap s) CAMERA_URL") auto
  show ?thesis
  proof (cases fr)
    case None
    then show ?thesis using True sr by (simp add: loop_iteration_no_frame)
  next
    case (Some frame)
    then obtain e where pf: "process_frame env (frame_count s + 1) frame = Inl e"
      using assms True sr
      by (cases "process_frame env (frame_count s + 1) frame") (simp_all add: iteration_entry_def)
    have it: "loop_iteration env s =
        loop_exit (s\<lparr>cap := c, world := w, frame_count := frame_count s + 1\<rparr>) e"
      using True sr Some pf by (simp add: loop_iteration_raises)
    show ?thesis by (simp add: it loop_exit_fields)
  qed
qed

lemma upto_snoc_int: "[1..int n] @ [int n + 1] = [1..int (Suc n)]"
  using upto_rec2 [of 1 "int n + 1"] by (simp add: add.commute)

lemma run_invariant:
  "(status (run env n) = Running \<longrightarrow> frame_count (run env n) = int (length (appended env n))) \<and>
   map frame_number (appended env n) = [1..int (length (appended env n))] \<and>
   analysis_logs (run env n) = appends [] (appended env n)"
proof (induction n)
  case 0
  show ?case by (simp add: surveillance_start_def video_capture_def appends_def)
next
  case (Suc n)
  let ?s = "run env n"
  show ?case
  proof (cases "iteration_entry env ?s")
    case None
    then have ap: "appended env (Suc n) = appended env n" by simp
    show ?thesis
      unfolding ap run.simps using Suc iteration_entry_None [OF None] by simp
  next
    case (Some e)
    then have ap: "appended env (Suc n) = appended env n @ [e]" by simp
    note f = iteration_entry_Some [OF Some]
    have cnt: "frame_count ?s = int (length (appended env n))" using Suc f by simp
    have num: "frame_number e = int (length (appended env n)) + 1" using f cnt by simp
    have a: "frame_count (run env (Suc n)) = int (length (appended env (Suc n)))"
      unfolding ap using f cnt by simp
    have "map frame_number (appended env n @ [e]) =
        [1..int (length (appended env n))] @ [int (length (appended env n)) + 1]"
      using Suc num by simp
    then have b: "map frame_number (appended env (Suc n)) =
        [1..int (length (appended env (Suc n)))]"
      unfolding ap by (simp only: upto_snoc_int length_append_singleton)
    have c: "analysis_logs (run env (Suc n)) = appends [] (appended env (Suc n))"
      unfolding ap using Suc f by (simp add: appends_snoc)
    show ?thesis using a b c by blast
  qed
qed

lemma appended_frame_number:
  assumes "i < length (appended env n)"
  shows "frame_number (appended env n ! i) = int i + 1"
proof -
  let ?xs = "appended env n"
  have "map frame_number ?xs ! i = [1..int (length ?xs)] ! i"
    using run_invariant [of env n] by simp
  then show ?thesis using assms by (simp add: nth_upto)
qed

lemma frame_count_step:
  "frame_count (loop_iteration env s) =
     frame_count s +
       (if status s = Running \<and> snd (snd (safe_read env (world s) (cap s) CAMERA_URL)) \<noteq> None
        then 1 else 0)"
proof (cases "status s = Running")
  case False
  then show ?thesis by (simp add: loop_iteration_halted)
next
  case True
  obtain w c fr where sr: "safe_read env (world s) (cap s) CAMERA_URL = (w, c, fr)"
    by (cases "safe_read env (world s) (cap s) CAMERA_URL") auto
  show ?thesis
  proof (cases fr)
    case None
    then show ?thesis using True sr by (simp add: loop_iteration_no_frame)
  next
    case (Some frame)
    then show ?thesis using True sr
      by (cases "process_frame env (frame_count s + 1) frame")
         (simp_all add: loop_iteration_raises loop_iteration_appends loop_exit_fields
            print_frame_fields)
  qed
qed

lemma run_logs_bounded: "length (analysis_logs (run env n)) \<le> 100"
proof -
  have "analysis_logs (run env n) = appends [] (appended env n)"
    using run_invariant [of env n] by simp
  also have "\<dots> = drop (length ([] @ appended env n) - 100) ([] @ appended env n)"
    by (rule appends_drop) simp
  finally show ?thesis by simp
qed

lemma loop_iteration_logs:
  "analysis_logs (loop_iteration env s) = analysis_logs s \<or>
   (\<exists>e. analysis_logs (loop_iteration env s) = append_log (analysis_logs s) e)"
proof (cases "iteration_entry env s")
  case None
  then show ?thesis using iteration_entry_None by blast
next
  case (Some e)
  then show ?thesis using iteration_entry_Some by blast
qed

text \<open>
  The store of a run is the result of appending, in order, the entries its passes built:
  lines 87 to 89 are the only place that changes it.
\<close>

lemma run_store_most_recent:
  "analysis_logs (run env n) = drop (length (appended env n) - 100) (appended env n)"
proof -
  have "analysis_logs (run env n) = appends [] (appended env n)"
    using run_invariant [of env n] by simp
  also have "\<dots> = drop (length ([] @ appended env n) - 100) ([] @ appended env n)"
    by (rule appends_drop) simp
  finally show ?thesis by simp
qed

section \<open>Runs on the concrete inputs\<close>

lemmas eval_defs =
  surveillance_start_def video_capture_def initial_camera_def loop_iteration_def
  iteration_entry_def safe_read_def cap_read_def cap_release_def time_sleep_def
  process_frame_def encode_image_def describe_image_def describe_try_def
  response_description_def response_content_def py_get_def py_strip_method_def py_strip_def
  py_isspace_def str_lit_def fallback_description_def append_log_def log_push_def log_trim_def
  loop_exit_def sample_chat_def print_frame_def stdout_write_def frame_line_def error_line_def
  py_str_int_def nat_digits.simps connection_error_def cv2_error_def attribute_error_def
  unicode_encode_error_def

lemma start_ok:
  "surveillance_start env_ok =
     \<lparr>status = Running, cap = 0,
      world = \<lparr>reads_done = 0, next_handle = 1, events = [VideoCapture CAMERA_URL 0]\<rparr>,
      frame_count = 0, analysis_logs = []\<rparr>"
  by (simp add: surveillance_start_def video_capture_def initial_camera_def env_ok_def)

lemma entry_ok_0:
  "iteration_entry env_ok (surveillance_start env_ok) =
     Some \<lparr>frame_number = 1, timestamp = stamp, description = str_lit ''a cat''\<rparr>"
  unfolding start_ok by (simp add: eval_defs env_ok_def)

lemma run_ok_1:
  "run env_ok (Suc 0) =
     \<lparr>status = Running, cap = 1,
      world = \<lparr>reads_done = 2, next_handle = 2,
               events = [VideoCapture CAMERA_URL 0, CapRead 0, CapRelease 0, Sleep 1,
                         VideoCapture CAMERA_URL 1, CapRead 1]\<rparr>,
      frame_count = 1,
      analysis_logs = [\<lparr>frame_number = 1, timestamp = stamp, description = str_lit ''a cat''\<rparr>]\<rparr>"
  unfolding run.simps start_ok by (simp add: eval_defs env_ok_def)

lemma entry_ok_1:
  "iteration_entry env_ok (run env_ok (Suc 0)) =
     Some \<lparr>frame_number = 2, timestamp = stamp, description = fallback_description\<rparr>"
  unfolding run_ok_1 by (simp add: eval_defs env_ok_def)

lemma appended_ok_2:
  "appended env_ok (Suc (Suc 0)) =
     [\<lparr>frame_number = 1, timestamp = stamp, description = str_lit ''a cat''\<rparr>,
      \<lparr>frame_number = 2, timestamp = stamp, description = fallback_description\<rparr>]"
  unfolding appended.simps run.simps(1)
  by (simp add: entry_ok_0 entry_ok_1 del: run.simps)

lemma start_encode_fails:
  "surveillance_start env_encode_fails =
     \<lparr>status = Running, cap = 0,
      world = \<lparr>reads_done = 0, next_handle = 1, events = [VideoCapture CAMERA_URL 0]\<rparr>,
      frame_count = 0, analysis_logs = []\<rparr>"
  by (simp add: surveillance_start_def video_capture_def initial_camera_def env_ok_def
      env_encode_fails_def)

lemma safe_read_encode_fails_0:
  "safe_read env_encode_fails (world (surveillance_start env_encode_fails)) (cap (surveillance_start env_encode_fails))
     CAMERA_URL =
     (\<lparr>reads_done = 2, next_handle = 2,
       events = [VideoCapture CAMERA_URL 0, CapRead 0, CapRelease 0, Sleep 1,
                 VideoCapture CAMERA_URL 1, CapRead 1]\<rparr>, 1, Some [10, 20, 30])"
  unfolding start_encode_fails
  by (simp add: safe_read_def cap_read_def cap_release_def time_sleep_def video_capture_def
      env_ok_def env_encode_fails_def)

lemma encode_image_fails:
  "encode_image env_encode_fails [10, 20, 30] = Inl cv2_error"
  by (simp add: encode_image_def env_encode_fails_def env_ok_def)

lemma safe_read_dead:
  "safe_read env_dead (world three_logged) (cap three_logged) CAMERA_URL =
     (\<lparr>reads_done = 7, next_handle = 4,
       events = [CapRead 2, CapRelease 2, Sleep 1, VideoCapture CAMERA_URL 3, CapRead 3]\<rparr>,
      3, None)"
  by (simp add: safe_read_def cap_read_def cap_release_def time_sleep_def video_capture_def
      env_dead_def env_ok_def three_logged_def)

section \<open>Cycles without a frame\<close>

text \<open>
  Claim C7. A pass of the loop in which \<open>safe_read\<close> returns no frame leaves the frame
  counter as it was, appends no entry, and leaves the log store (and what \<open>/logs\<close>
  returns) exactly as before; the loop keeps its status. The reconnect that \<open>safe_read\<close>
  itself performs is the subject of claim C5.
\<close>

theorem no_frame_iteration_changes_nothing:
  assumes "snd (snd (safe_read env (world s) (cap s) CAMERA_URL)) = None"
  shows "frame_count (loop_iteration env s) = frame_count s \<and>
         analysis_logs (loop_iteration env s) = analysis_logs s \<and>
         get_logs (loop_iteration env s) = get_logs s \<and>
         iteration_entry env s = None \<and>
         status (loop_iteration env s) = status s"
  using assms
  by (cases "safe_read env (world s) (cap s) CAMERA_URL")
     (simp add: loop_iteration_def iteration_entry_def get_logs_def)

theorem no_frame_iteration_changes_nothing_witness:
  "snd (snd (safe_read env_dead (world three_logged) (cap three_logged) CAMERA_URL)) = None \<and>
   frame_count (loop_iteration env_dead three_logged) = 3 \<and>
   analysis_logs (loop_iteration env_dead three_logged) =
     [sample_entry 1, sample_entry 2, sample_entry 3] \<and>
   get_logs (loop_iteration env_dead three_logged) = get_logs three_logged \<and>
   status (loop_iteration env_dead three_logged) = Running"
proof -
  have h: "snd (snd (safe_read env_dead (world three_logged) (cap three_logged) CAMERA_URL)) = None"
    by (simp add: safe_read_dead)
  show ?thesis
    using h no_frame_iteration_changes_nothing [OF h] by (simp add: three_logged_def)
qed

section \<open>Failures on the way to a description\<close>

text \<open>
  Two failures on the way to a description are not mapped to the fallback. With a colour
  conversion that raises, \<open>encode_image\<close> raises, the frame gets no entry at all, and the
  exception leaves the loop body. With an error of the service whose text cannot be
  printed, the handler of \<open>describe_image\<close> raises in its turn, and again the frame gets
  no entry.
\<close>

theorem describe_path_failures_escape:
  "encode_image env_encode_fails [10, 20, 30] = Inl cv2_error \<and>
   process_frame env_encode_fails 1 [10, 20, 30] = Inl cv2_error \<and>
   iteration_entry env_encode_fails (surveillance_start env_encode_fails) = None \<and>
   analysis_logs (run env_encode_fails (Suc 0)) = [] \<and>
   encode_image env_error_unprintable [10, 20, 30] = Inr [10, 20, 30] \<and>
   process_frame env_error_unprintable 1 [10, 20, 30] = Inl unicode_encode_error"
  unfolding run.simps start_encode_fails
  by (simp add: eval_defs env_ok_def env_encode_fails_def env_error_unprintable_def)

text \<open>
  Claim C4, as the code has it. Once the frame is encoded, every failure inside
  \<open>describe_image\<close> (the call raising an \<open>Exception\<close>, a response of the wrong shape,
  content that is empty once stripped) gives the fallback description there, so the frame
  gets its entry, provided the line that the handler prints (line 44) is written without
  error. An exception raised by \<open>encode_image\<close> is caught nowhere on this path: it leaves
  \<open>process_frame\<close>, no entry is appended, and the surveillance loop ends with it after
  releasing the handle.
\<close>

theorem describe_stage_absorbed_encode_stage_escapes:
  "(encode_image env frame = Inr img \<and>
    (\<forall>e. chat env img n = Raises e \<longrightarrow>
         is_Exception e \<and> stdout_write env (error_line e) = None) \<longrightarrow>
      (\<exists>d. process_frame env n frame =
              Inr \<lparr>frame_number = n, timestamp = now env n, description = d\<rparr> \<and>
           (\<forall>e. describe_try env img n = Inl e \<longrightarrow> d = fallback_description) \<and>
           (\<forall>r c. chat env img n = Returns r \<and> response_content r = Inr (PStr c) \<and>
                  py_strip c = [] \<longrightarrow> d = fallback_description))) \<and>
   (encode_image env frame = Inl e \<longrightarrow> process_frame env n frame = Inl e) \<and>
   (status s = Running \<and> safe_read env (world s) (cap s) CAMERA_URL = (w, c, Some frame) \<and>
    encode_image env frame = Inl e \<and> is_Exception e \<longrightarrow>
      status (loop_iteration env s) = Crashed e \<and>
      analysis_logs (loop_iteration env s) = analysis_logs s \<and>
      iteration_entry env s = None \<and>
      cap (loop_iteration env s) = c \<and>
      world (loop_iteration env s) = cap_release w c \<and>
      events (world (loop_iteration env s)) = events w @ [CapRelease c])"
proof (intro conjI impI)
  assume a: "encode_image env frame = Inr img \<and>
    (\<forall>e. chat env img n = Raises e \<longrightarrow>
         is_Exception e \<and> stdout_write env (error_line e) = None)"
  then obtain d where d: "describe_image env img n = Inr d"
    and f: "\<forall>e. describe_try env img n = Inl e \<longrightarrow> d = fallback_description"
    and g: "\<forall>r c. chat env img n = Returns r \<and> response_content r = Inr (PStr c) \<and>
                  py_strip c = [] \<longrightarrow> d = fallback_description"
    using describe_image_absorbs [of env img n] by blast
  have "process_frame env n frame =
      Inr \<lparr>frame_number = n, timestamp = now env n, description = d\<rparr>"
    using a d by (simp add: process_frame_encoded)
  then show "\<exists>d. process_frame env n frame =
              Inr \<lparr>frame_number = n, timestamp = now env n, description = d\<rparr> \<and>
           (\<forall>e. describe_try env img n = Inl e \<longrightarrow> d = fallback_description) \<and>
           (\<forall>r c. chat env img n = Returns r \<and> response_content r = Inr (PStr c) \<and>
                  py_strip c = [] \<longrightarrow> d = fallback_description)"
    using f g by blast
next
  assume "encode_image env frame = Inl e"
  then show "process_frame env n frame = Inl e" by (rule process_frame_encode_raises)
next
  assume a: "status s = Running \<and> safe_read env (world s) (cap s) CAMERA_URL = (w, c, Some frame) \<and>
    encode_image env frame = Inl e \<and> is_Exception e"
  then have p: "process_frame env (frame_count s + 1) frame = Inl e"
    by (simp add: process_frame_encode_raises)
  have ne: "e \<noteq> KeyboardInterrupt" using a by auto
  have it: "loop_iteration env s =
      loop_exit (s\<lparr>cap := c, world := w, frame_count := frame_count s + 1\<rparr>) e"
    using a p by (simp add: loop_iteration_raises)
  show "status (loop_iteration env s) = Crashed e" using ne by (simp add: it loop_exit_fields)
  show "analysis_logs (loop_iteration env s) = analysis_logs s" by (simp add: it loop_exit_fields)
  show "iteration_entry env s = None" using a p by (simp add: iteration_entry_def)
  show "cap (loop_iteration env s) = c" by (simp add: it loop_exit_def)
  show "world (loop_iteration env s) = cap_release w c" by (simp add: it loop_exit_def)
  show "events (world (loop_iteration env s)) = events w @ [CapRelease c]"
    by (simp add: it loop_exit_def cap_release_def)
qed

theorem describe_stage_absorbed_encode_stage_escapes_witness:
  "encode_image env_ok [10, 20, 30] = Inr [10, 20, 30] \<and>
   describe_try env_ok [10, 20, 30] 2 = Inl connection_error \<and>
   process_frame env_ok 2 [10, 20, 30] =
     Inr \<lparr>frame_number = 2, timestamp = stamp, description = fallback_description\<rparr> \<and>
   encode_image env_encode_fails [10, 20, 30] = Inl cv2_error \<and>
   is_Exception cv2_error \<and>
   status (surveillance_start env_encode_fails) = Running \<and>
   status (loop_iteration env_encode_fails (surveillance_start env_encode_fails)) =
     Crashed cv2_error \<and>
   analysis_logs (loop_iteration env_encode_fails (surveillance_start env_encode_fails)) = [] \<and>
   events (world (loop_iteration env_encode_fails (surveillance_start env_encode_fails))) =
     [VideoCapture CAMERA_URL 0, CapRead 0, CapRelease 0, Sleep 1,
      VideoCapture CAMERA_URL 1, CapRead 1, CapRelease 1]"
proof -
  let ?s = "surveillance_start env_encode_fails"
  let ?w = "\<lparr>reads_done = 2, next_handle = 2,
       events = [VideoCapture CAMERA_URL 0, CapRead 0, CapRelease 0, Sleep 1,
                 VideoCapture CAMERA_URL 1, CapRead 1]\<rparr>"
  have enc: "encode_image env_ok [10, 20, 30] = Inr [10, 20, 30]"
    by (simp add: encode_image_def env_ok_def)
  have ch: "chat env_ok [10, 20, 30] 2 = Raises connection_error"
    by (simp add: env_ok_def sample_chat_def)
  have tr: "describe_try env_ok [10, 20, 30] 2 = Inl connection_error"
    by (simp add: describe_try_def ch)
  have only: "\<forall>e. chat env_ok [10, 20, 30] 2 = Raises e \<longrightarrow>
      is_Exception e \<and> stdout_write env_ok (error_line e) = None"
    by (simp add: ch error_line_connection_error_written) (simp add: connection_error_def)
  have st: "now env_ok 2 = stamp" by (simp add: env_ok_def)
  from describe_stage_absorbed_encode_stage_escapes [of env_ok "[10, 20, 30]" "[10, 20, 30]" 2]
  obtain d where
    pf: "process_frame env_ok 2 [10, 20, 30] =
           Inr \<lparr>frame_number = 2, timestamp = now env_ok 2, description = d\<rparr>"
    and fb: "\<forall>e. describe_try env_ok [10, 20, 30] 2 = Inl e \<longrightarrow> d = fallback_description"
    using enc only by blast
  from fb tr have "d = fallback_description" by blast
  then have p: "process_frame env_ok 2 [10, 20, 30] =
      Inr \<lparr>frame_number = 2, timestamp = stamp, description = fallback_description\<rparr>"
    using pf st by simp
  have ef: "encode_image env_encode_fails [10, 20, 30] = Inl cv2_error"
    by (rule encode_image_fails)
  have ex: "is_Exception cv2_error" by (simp add: cv2_error_def)
  have rn: "status ?s = Running" by (simp add: start_encode_fails)
  have lg: "analysis_logs ?s = []" by (simp add: start_encode_fails)
  have "status (loop_iteration env_encode_fails ?s) = Crashed cv2_error \<and>
        analysis_logs (loop_iteration env_encode_fails ?s) = analysis_logs ?s \<and>
        events (world (loop_iteration env_encode_fails ?s)) = events ?w @ [CapRelease 1]"
    using describe_stage_absorbed_encode_stage_escapes
      [of env_encode_fails "[10, 20, 30]" _ _ cv2_error ?s ?w 1]
      rn safe_read_encode_fails_0 ef ex by (simp add: cap_release_def)
  then show ?thesis using enc tr p ef ex rn lg by simp
qed

section \<open>What halts the loop\<close>




section \<open>Frame numbers\<close>

text \<open>
  Claim C6. The entries appended during a run carry the frame numbers 1, 2, 3, ... in the
  order of their appends, without a gap, so an entry appended earlier has the smaller
  number. The counter starts at 0 and a pass adds exactly one to it when it is running and
  \<open>safe_read\<close> delivered a frame, and nothing otherwise.
\<close>

theorem frame_numbers_consecutive_from_one:
  "map frame_number (appended env n) = [1..int (length (appended env n))] \<and>
   (\<forall>i j. i < j \<and> j < length (appended env n) \<longrightarrow>
      frame_number (appended env n ! i) < frame_number (appended env n ! j)) \<and>
   frame_count (surveillance_start env) = 0 \<and>
   frame_count (loop_iteration env s) =
     frame_count s +
       (if status s = Running \<and> snd (snd (safe_read env (world s) (cap s) CAMERA_URL)) \<noteq> None
        then 1 else 0)"
proof (intro conjI allI impI)
  show "map frame_number (appended env n) = [1..int (length (appended env n))]"
    using run_invariant [of env n] by simp
next
  fix i j
  assume "i < j \<and> j < length (appended env n)"
  then show "frame_number (appended env n ! i) < frame_number (appended env n ! j)"
    by (simp add: appended_frame_number)
next
  show "frame_count (surveillance_start env) = 0"
    by (simp add: surveillance_start_def video_capture_def)
next
  show "frame_count (loop_iteration env s) =
     frame_count s +
       (if status s = Running \<and> snd (snd (safe_read env (world s) (cap s) CAMERA_URL)) \<noteq> None
        then 1 else 0)"
    by (rule frame_count_step)
qed

theorem frame_numbers_consecutive_from_one_witness:
  "length (appended env_ok 2) = 2 \<and>
   map frame_number (appended env_ok 2) = [1, 2] \<and>
   frame_number (appended env_ok 2 ! 0) < frame_number (appended env_ok 2 ! 1) \<and>
   frame_count (surveillance_start env_ok) = 0 \<and>
   frame_count (loop_iteration env_ok (surveillance_start env_ok)) = 1 \<and>
   frame_count (loop_iteration env_dead three_logged) = 3"
proof -
  have len: "length (appended env_ok 2) = 2"
    by (simp add: numeral_2_eq_2 appended_ok_2 del: appended.simps)
  note t = frame_numbers_consecutive_from_one [of env_ok 2 "surveillance_start env_ok"]
  note u = frame_numbers_consecutive_from_one [of env_dead 0 three_logged]
  have up: "[1..int 2] = [1, 2]" by (simp add: upto_rec1)
  have m: "map frame_number (appended env_ok 2) = [1, 2]"
    using t len up by simp
  have lt: "frame_number (appended env_ok 2 ! 0) < frame_number (appended env_ok 2 ! 1)"
    using t len by simp
  have z: "frame_count (surveillance_start env_ok) = 0" using t by blast
  have got: "snd (snd (safe_read env_ok (world (surveillance_start env_ok)) (cap (surveillance_start env_ok)) CAMERA_URL))
      \<noteq> None"
    unfolding start_ok
    by (simp add: safe_read_def cap_read_def cap_release_def time_sleep_def video_capture_def
        env_ok_def)
  have one: "frame_count (loop_iteration env_ok (surveillance_start env_ok)) = 1"
    using t got z by (simp add: start_ok)
  have three: "frame_count (loop_iteration env_dead three_logged) = 3"
    using u by (simp add: safe_read_dead) (simp add: three_logged_def)
  show ?thesis using len m lt z one three by blast
qed

section \<open>The bound on the store\<close>

text \<open>
  The store is not within its capacity at every moment: line 87 appends before line 89
  removes, so a store of 100 entries holds 101 between the two statements, which is what
  the \<open>/logs\<close> handler of another thread finds if it reads then.
\<close>

theorem store_exceeds_capacity_between_append_and_trim:
  "length full_store \<le> 100 \<and> \<not> length (log_push full_store (sample_entry 101)) \<le> 100"
  by (simp add: full_store_def log_push_def)

text \<open>
  Claim C2, as the code has it. After every completed pass of the loop the store holds at
  most 100 entries; between the append of line 87 and the trim of lines 88 and 89 it holds
  at most 101. An append to a store of 100 entries removes exactly its oldest entry and
  adds the new one at the end; an append to a shorter store removes nothing. A pass either
  leaves the store as it is or performs one such append, and \<open>get_logs\<close> only reads: no
  other operation removes an entry.
\<close>

theorem store_bounded_after_each_append:
  "length (analysis_logs (run env n)) \<le> 100 \<and>
   (length logs \<le> 100 \<longrightarrow>
      length (log_push logs e) \<le> 101 \<and> length (append_log logs e) \<le> 100) \<and>
   (length logs = 100 \<longrightarrow> append_log logs e = tl logs @ [e]) \<and>
   (length logs < 100 \<longrightarrow> append_log logs e = logs @ [e]) \<and>
   (analysis_logs (loop_iteration env s) = analysis_logs s \<or>
    (\<exists>e'. analysis_logs (loop_iteration env s) = append_log (analysis_logs s) e')) \<and>
   get_logs s = analysis_logs s"
proof (intro conjI impI)
  show "length (analysis_logs (run env n)) \<le> 100" by (rule run_logs_bounded)
next
  assume "length logs \<le> 100"
  then show "length (log_push logs e) \<le> 101" by (simp add: log_push_def)
next
  assume "length logs \<le> 100"
  then show "length (append_log logs e) \<le> 100"
    by (simp add: append_log_def log_push_def log_trim_def)
next
  assume "length logs = 100"
  then show "append_log logs e = tl logs @ [e]" by (rule append_log_full)
next
  assume "length logs < 100"
  then show "append_log logs e = logs @ [e]" by (rule append_log_below)
next
  show "analysis_logs (loop_iteration env s) = analysis_logs s \<or>
    (\<exists>e'. analysis_logs (loop_iteration env s) = append_log (analysis_logs s) e')"
    by (rule loop_iteration_logs)
next
  show "get_logs s = analysis_logs s" by (simp add: get_logs_def)
qed

theorem store_bounded_after_each_append_witness:
  "length full_store = 100 \<and>
   length (log_push full_store (sample_entry 101)) \<le> 101 \<and>
   length (append_log full_store (sample_entry 101)) \<le> 100 \<and>
   append_log full_store (sample_entry 101) = tl full_store @ [sample_entry 101] \<and>
   length [sample_entry 1] < 100 \<and>
   append_log [sample_entry 1] (sample_entry 2) = [sample_entry 1, sample_entry 2] \<and>
   length (analysis_logs (run env_ok 2)) \<le> 100"
proof -
  have f: "length full_store = 100" by (simp add: full_store_def)
  have g: "length [sample_entry 1] < 100" by simp
  note a = store_bounded_after_each_append
    [of env_ok 2 full_store "sample_entry 101" "surveillance_start env_ok"]
  note b = store_bounded_after_each_append
    [of env_ok 2 "[sample_entry 1]" "sample_entry 2" "surveillance_start env_ok"]
  show ?thesis
    apply (intro conjI)
    using f apply blast
    using a f apply simp
    using a f apply simp
    using a f apply blast
    using g apply blast
    using b g apply simp
    using a apply blast
    done
qed

section \<open>Readers of the store\<close>

text \<open>
  \<open>get_logs\<close> is given the module-level list itself and runs in a request thread while
  the loop thread changes that list. What a request can observe therefore depends on how
  the interpreter interleaves the two threads, which this sequential development does not
  describe; it states only what \<open>get_logs\<close> returns for a state of the loop.
\<close>

lemma get_logs_reads_store: "get_logs s = analysis_logs s"
  by (simp add: get_logs_def)

end
